theory Spec2Isabelle
  imports Main "HOL-Library.Char_ord" "HOL-Library.List_Lexorder" "HOL-Library.Multiset"
begin

section \<open>Python values used by the notification view\<close>

text \<open>
  The sources are Python 3. A \<open>bytes\<close> object is a \<^typ>\<open>string\<close> (a list of 8-bit
  characters). A \<open>str\<close> is represented by its UTF-8 encoding, again a \<^typ>\<open>string\<close>:
  the representation is one-to-one on every \<open>str\<close> that \<open>bytes.decode('utf8')\<close> can
  return, and the ASCII literals of the source denote themselves.
\<close>

datatype error =
    NotAcceptable string
  | UnicodeDecodeError
  | IndexError
  | ValueError
  | KeyError string
  | AttributeError string
  | BrokerError string

abbreviation nl :: char where
  "nl \<equiv> CHR 0x0A"

subsection \<open>\<open>str(int)\<close>\<close>

definition digit :: "nat \<Rightarrow> char" where
  "digit d = ''0123456789'' ! d"

fun decimal :: "nat \<Rightarrow> string" where
  "decimal n = (if n < 10 then [digit n] else decimal (n div 10) @ [digit (n mod 10)])"

declare decimal.simps [simp del]

definition str_int :: "int \<Rightarrow> string" where
  "str_int i = (if i < 0 then CHR ''-'' # decimal (nat (- i)) else decimal (nat i))"

subsection \<open>\<open>bytes.decode('utf8')\<close>\<close>

text \<open>
  Strict decoding accepts exactly the well-formed UTF-8 byte sequences: no overlong
  forms, no surrogates (\<open>ED A0\<close> .. \<open>ED BF\<close>), nothing above U+10FFFF. Anything else
  raises \<open>UnicodeDecodeError\<close>.
\<close>

definition byte :: "char \<Rightarrow> nat" where
  "byte c = of_char c"

definition between :: "nat \<Rightarrow> nat \<Rightarrow> char \<Rightarrow> bool" where
  "between lo hi c = (lo \<le> byte c \<and> byte c \<le> hi)"

fun utf8_valid :: "string \<Rightarrow> bool" where
  "utf8_valid [] = True"
| "utf8_valid (b # bs) =
     (if byte b < 0x80 then utf8_valid bs
      else if between 0xC2 0xDF b then
        (case bs of
           c1 # r \<Rightarrow> between 0x80 0xBF c1 \<and> utf8_valid r
         | _ \<Rightarrow> False)
      else if between 0xE0 0xEF b then
        (case bs of
           c1 # c2 # r \<Rightarrow>
             between (if byte b = 0xE0 then 0xA0 else 0x80)
                     (if byte b = 0xED then 0x9F else 0xBF) c1
             \<and> between 0x80 0xBF c2 \<and> utf8_valid r
         | _ \<Rightarrow> False)
      else if between 0xF0 0xF4 b then
        (case bs of
           c1 # c2 # c3 # r \<Rightarrow>
             between (if byte b = 0xF0 then 0x90 else 0x80)
                     (if byte b = 0xF4 then 0x8F else 0xBF) c1
             \<and> between 0x80 0xBF c2 \<and> between 0x80 0xBF c3 \<and> utf8_valid r
         | _ \<Rightarrow> False)
      else False)"

definition decode_utf8 :: "string \<Rightarrow> error + string" where
  "decode_utf8 bs = (if utf8_valid bs then Inr bs else Inl UnicodeDecodeError)"

subsection \<open>\<open>str.format\<close>\<close>

text \<open>
  The fragment of \<open>str.format\<close> that the view's template uses: literal text, the
  automatically numbered field \<open>{}\<close> and the escapes \<open>{{\<close> and \<open>}}\<close>. A field takes the
  next positional argument and renders it with \<open>str\<close>; too few arguments raise
  \<open>IndexError\<close>, a lone brace raises \<open>ValueError\<close>, surplus arguments are ignored.
  Named, indexed and converted fields do not occur in the template; the model stops on
  them with \<open>ValueError\<close>.
\<close>

datatype pyval = PyInt int | PyStr string

fun py_str :: "pyval \<Rightarrow> string" where
  "py_str (PyInt i) = str_int i"
| "py_str (PyStr s) = s"

definition emit :: "string \<Rightarrow> error + string \<Rightarrow> error + string" where
  "emit s r = (case r of Inl e \<Rightarrow> Inl e | Inr t \<Rightarrow> Inr (s @ t))"

fun py_format :: "string \<Rightarrow> pyval list \<Rightarrow> error + string" where
  "py_format [] args = Inr []"
| "py_format [c] args = (if c = CHR ''{'' \<or> c = CHR ''}'' then Inl ValueError else Inr [c])"
| "py_format (c # d # t) args =
     (if c = CHR ''{'' then
        (if d = CHR ''{'' then emit [c] (py_format t args)
         else if d = CHR ''}'' then
           (case args of
              [] \<Rightarrow> Inl IndexError
            | a # rest \<Rightarrow> emit (py_str a) (py_format t rest))
         else Inl ValueError)
      else if c = CHR ''}'' then
        (if d = CHR ''}'' then emit [c] (py_format t args) else Inl ValueError)
      else emit [c] (py_format (d # t) args))"

section \<open>The notification view (\<open>lib/app/views/notification.py\<close>)\<close>

definition CHANNELS :: "string list" where
  "CHANNELS = [''avatar'', ''profile'']"

text \<open>The template of line 57: \<open>'id: {}\nevent: {}\ndata: {}\n\n'\<close>.\<close>

definition frame_template :: string where
  "frame_template = ''id: {}'' @ [nl] @ ''event: {}'' @ [nl] @ ''data: {}'' @ [nl, nl]"

text \<open>Line 57: \<open>'id: {}\nevent: {}\ndata: {}\n\n'.format(event_id, channel, data)\<close>.\<close>

definition encode :: "int \<Rightarrow> string \<Rightarrow> string \<Rightarrow> error + string" where
  "encode event_id channel data =
     py_format frame_template [PyInt event_id, PyStr channel, PyStr data]"

subsection \<open>The broker, as the view uses it\<close>

text \<open>
  \<open>app.database.get_redis\<close> and the pub/sub handle belong to \<open>app.database\<close> and to
  the redis client, neither of which is among these sources. The model takes from them
  what the call sites of the view show: a handle is created with the flag
  \<open>ignore_subscribe_messages\<close>, \<open>subscribe\<close> registers the names it is given (it is
  handed no registry to check them against), and \<open>listen()\<close> hands over one item at a
  time. Whether the broker can be reached is the parameter \<open>unavailable\<close>: when it
  is set, \<open>subscribe\<close> raises the client's connection error. The field
  \<open>close_calls\<close> counts the calls of \<open>close()\<close> on a handle.

  A published message carries its channel and its data as \<open>bytes\<close>. What arrives on a
  handle is a published message (\<open>Yield\<close>), the acknowledgement of a subscription with
  the channel and the number of subscriptions (\<open>Ack\<close>), a failure of the connection
  (\<open>Raise\<close>), or the end of the iteration (\<open>Stop\<close>).
\<close>

record message =
  channel :: string
  data :: string

datatype listen_item = Yield message | Ack string int | Raise error | Stop

fun is_ack :: "listen_item \<Rightarrow> bool" where
  "is_ack (Ack c n) = True"
| "is_ack _ = False"

record pubsub =
  ignore_subscribe_messages :: bool
  channels :: "string list"
  incoming :: "listen_item list"
  close_calls :: nat

record broker =
  unavailable :: "string option"
  handles :: nat
  subscribe_calls :: "string list list"

definition redis_pubsub :: "bool \<Rightarrow> pubsub" where
  "redis_pubsub flag =
     \<lparr>ignore_subscribe_messages = flag, channels = [], incoming = [], close_calls = 0\<rparr>"

definition pubsub_subscribe ::
  "string list \<Rightarrow> pubsub \<Rightarrow> broker \<Rightarrow> (error + pubsub) \<times> broker" where
  "pubsub_subscribe names ps b =
     (let b1 = b\<lparr>subscribe_calls := subscribe_calls b @ [names]\<rparr> in
      case unavailable b of
        Some why \<Rightarrow> (Inl (BrokerError why), b1)
      | None \<Rightarrow> (Inr (ps\<lparr>channels := channels ps @ names\<rparr>), b1\<lparr>handles := handles b + 1\<rparr>))"

text \<open>
  Modelled from the spec: the iterator \<open>pubsub.listen()\<close> of the redis client, which is
  missing from the sources. It hands over the oldest item that has arrived, which
  leaves the queue, and is \<open>None\<close> while there is none (the call blocks). Section 4.2:
  subscription acknowledgements are suppressed; the handle does so when it was created
  with \<open>ignore_subscribe_messages\<close>, and then passes over them.
\<close>

definition listen :: "pubsub \<Rightarrow> listen_item option \<times> pubsub" where
  "listen ps =
     (case (if ignore_subscribe_messages ps then dropWhile is_ack (incoming ps)
            else incoming ps) of
        [] \<Rightarrow> (None, ps\<lparr>incoming := []\<rparr>)
      | x # xs \<Rightarrow> (Some x, ps\<lparr>incoming := xs\<rparr>))"

subsection \<open>\<open>NotificationView._stream\<close>\<close>

text \<open>
  \<open>_stream\<close> is a generator. Its state is the place where it is suspended and the
  handle it holds: not started, at the priming \<open>yield ''\<close> of line 49, at the
  \<open>yield\<close> of line 57 with the current \<open>event_id\<close>, or finished.
\<close>

datatype gen_pc = NotStarted | AtPrime | AtFrame int | Finished

record generator =
  pc :: gen_pc
  pubsub :: pubsub

datatype resumed = Yielded string | StopIteration | Raised error | Blocked

definition stream :: "pubsub \<Rightarrow> generator" where
  "stream ps = \<lparr>pc = NotStarted, pubsub = ps\<rparr>"

text \<open>
  One turn of the loop of lines 54 to 58, entered with \<open>event_id\<close>: take the next
  message, decode its channel and data, and yield the frame. While no message has
  arrived the generator stays where it is. An exception of \<open>listen()\<close> or of
  \<open>decode\<close> leaves the generator; there is no handler and no \<open>finally\<close>. The data
  of an acknowledgement is an \<open>int\<close>, which has no \<open>decode\<close>.
\<close>

definition loop_body :: "int \<Rightarrow> generator \<Rightarrow> resumed \<times> generator" where
  "loop_body event_id g =
     (case listen (pubsub g) of
        (None, ps) \<Rightarrow> (Blocked, g\<lparr>pubsub := ps\<rparr>)
      | (Some (Ack c n), ps) \<Rightarrow>
          (case decode_utf8 c of
             Inl e \<Rightarrow> (Raised e, \<lparr>pc = Finished, pubsub = ps\<rparr>)
           | Inr c' \<Rightarrow> (Raised (AttributeError ''decode''), \<lparr>pc = Finished, pubsub = ps\<rparr>))
      | (Some Stop, ps) \<Rightarrow> (StopIteration, \<lparr>pc = Finished, pubsub = ps\<rparr>)
      | (Some (Raise e), ps) \<Rightarrow> (Raised e, \<lparr>pc = Finished, pubsub = ps\<rparr>)
      | (Some (Yield m), ps) \<Rightarrow>
          (case decode_utf8 (channel m) of
             Inl e \<Rightarrow> (Raised e, \<lparr>pc = Finished, pubsub = ps\<rparr>)
           | Inr c \<Rightarrow>
               (case decode_utf8 (data m) of
                  Inl e \<Rightarrow> (Raised e, \<lparr>pc = Finished, pubsub = ps\<rparr>)
                | Inr d \<Rightarrow>
                    (case encode event_id c d of
                       Inl e \<Rightarrow> (Raised e, \<lparr>pc = Finished, pubsub = ps\<rparr>)
                     | Inr f \<Rightarrow> (Yielded f, \<lparr>pc = AtFrame event_id, pubsub = ps\<rparr>)))))"

text \<open>\<open>next()\<close> on the generator.\<close>

definition stream_next :: "generator \<Rightarrow> resumed \<times> generator" where
  "stream_next g =
     (case pc g of
        NotStarted \<Rightarrow> (Yielded [], g\<lparr>pc := AtPrime\<rparr>)
      | AtPrime \<Rightarrow> loop_body 1 g
      | AtFrame event_id \<Rightarrow> loop_body (event_id + 1) g
      | Finished \<Rightarrow> (StopIteration, g))"

text \<open>
  \<open>close()\<close> on the generator, which the server calls when the client is gone:
  \<open>GeneratorExit\<close> is raised at the suspended \<open>yield\<close> and, with no \<open>try\<close> around
  it, ends the generator.
\<close>

definition stream_close :: "generator \<Rightarrow> generator" where
  "stream_close g = g\<lparr>pc := Finished\<rparr>"

text \<open>The broker delivers an item on the handle the generator holds.\<close>

definition arrive :: "listen_item \<Rightarrow> generator \<Rightarrow> generator" where
  "arrive x g = g\<lparr>pubsub := (pubsub g)\<lparr>incoming := incoming (pubsub g) @ [x]\<rparr>\<rparr>"

text \<open>
  A connection's life is a sequence of actions: the server pulls the next chunk and
  writes it to the client, the broker delivers an item, or the client disconnects.
  \<open>run\<close> returns the chunks written, in order, and the generator left behind.
\<close>

datatype action = Pull | Arrive listen_item | Disconnect

fun run :: "action list \<Rightarrow> generator \<Rightarrow> string list \<times> generator" where
  "run [] g = ([], g)"
| "run (Pull # acts) g =
     (case stream_next g of
        (Yielded f, g') \<Rightarrow> (case run acts g' of (fs, g'') \<Rightarrow> (f # fs, g''))
      | (_, g') \<Rightarrow> run acts g')"
| "run (Arrive x # acts) g = run acts (arrive x g)"
| "run (Disconnect # acts) g = run acts (stream_close g)"

subsection \<open>\<open>NotificationView.index\<close>\<close>

text \<open>
  A request is its header fields: \<open>request.headers.get('Accept')\<close> is the value of the
  \<open>Accept\<close> field, or \<open>None\<close> when the request has none. The response is the
  generator handed to \<open>Response\<close> and the content type. The decorator
  \<open>login_required\<close> belongs to \<open>app.authorization\<close>, which is not among these sources;
  \<open>index\<close> is the function it wraps.
\<close>

record request =
  headers :: "string \<rightharpoonup> string"

record response =
  body :: generator
  content_type :: string

definition message_406 :: string where
  "message_406 = ''This endpoint is only for use with server-sent '' @ ''events (SSE).''"

definition index :: "request \<Rightarrow> broker \<Rightarrow> (error + response) \<times> broker" where
  "index req b =
     (if headers req ''Accept'' = Some ''text/event-stream'' then
        (case pubsub_subscribe CHANNELS (redis_pubsub True) b of
           (Inl e, b') \<Rightarrow> (Inl e, b')
         | (Inr ps, b') \<Rightarrow>
             (Inr \<lparr>body = stream ps, content_type = ''text/event-stream''\<rparr>, b'))
      else (Inl (NotAcceptable message_406), b))"

section \<open>The profile model (\<open>lib/model/profile.py\<close>)\<close>

subsection \<open>\<open>datetime\<close>\<close>

text \<open>
  A naive \<open>datetime\<close> (the columns are \<open>DateTime\<close> without a time zone).
  \<open>isoformat()\<close> prints \<open>YYYY-MM-DDTHH:MM:SS\<close> and appends \<open>.ffffff\<close> when the
  microseconds are not zero.
\<close>

record datetime =
  year :: nat
  month :: nat
  day :: nat
  hour :: nat
  minute :: nat
  second :: nat
  microsecond :: nat

definition zpad :: "nat \<Rightarrow> nat \<Rightarrow> string" where
  "zpad w n = replicate (w - length (decimal n)) CHR ''0'' @ decimal n"

definition isoformat :: "datetime \<Rightarrow> string" where
  "isoformat t =
     zpad 4 (year t) @ ''-'' @ zpad 2 (month t) @ ''-'' @ zpad 2 (day t) @ ''T''
     @ zpad 2 (hour t) @ '':'' @ zpad 2 (minute t) @ '':'' @ zpad 2 (second t)
     @ (if microsecond t \<noteq> 0 then ''.'' @ zpad 6 (microsecond t) else [])"

subsection \<open>\<open>sorted\<close>\<close>

text \<open>
  \<open>sorted(xs, key=k, reverse=r)\<close> is a stable sort. With \<open>reverse=True\<close> the list is
  reversed, sorted upwards and reversed again, so that elements with equal keys keep
  their order. Strings compare by code point, which on the UTF-8 representation is
  the lexicographic order of the bytes.
\<close>

definition py_sorted :: "('a \<Rightarrow> 'k::linorder) \<Rightarrow> bool \<Rightarrow> 'a list \<Rightarrow> 'a list" where
  "py_sorted key reverse xs =
     (if reverse then rev (sort_key key (rev xs)) else sort_key key xs)"

text \<open>A list comprehension whose element expression may raise: the first error wins.\<close>

fun collect :: "(error + 'a) list \<Rightarrow> error + 'a list" where
  "collect [] = Inr []"
| "collect (x # xs) =
     (case x of
        Inl e \<Rightarrow> Inl e
      | Inr v \<Rightarrow> (case collect xs of Inl e \<Rightarrow> Inl e | Inr vs \<Rightarrow> Inr (v # vs)))"

subsection \<open>\<open>ProfileUsername\<close>\<close>

text \<open>
  A column that the constructor does not assign is \<open>None\<close>. A date argument is
  \<open>None\<close>, a \<open>datetime\<close>, or something else, which goes to
  \<open>dateutil.parser.parse\<close>; the parser is a parameter.
\<close>

record profile_username =
  pu_id :: "int option"
  pu_username :: "string option"
  start_date :: "datetime option"
  end_date :: "datetime option"
  pu_profile_id :: "int option"

datatype date_arg = NoDate | Date datetime | Text string

definition date_value ::
  "(string \<Rightarrow> error + datetime) \<Rightarrow> date_arg \<Rightarrow> error + datetime option" where
  "date_value parse d =
     (case d of
        NoDate \<Rightarrow> Inr None
      | Date t \<Rightarrow> Inr (Some t)
      | Text s \<Rightarrow> (case parse s of Inl e \<Rightarrow> Inl e | Inr t \<Rightarrow> Inr (Some t)))"

definition ProfileUsername_init ::
  "(string \<Rightarrow> error + datetime) \<Rightarrow> string option \<Rightarrow> date_arg \<Rightarrow> date_arg
     \<Rightarrow> error + profile_username" where
  "ProfileUsername_init parse username' start_date' end_date' =
     (case date_value parse start_date' of
        Inl e \<Rightarrow> Inl e
      | Inr sd \<Rightarrow>
          (case date_value parse end_date' of
             Inl e \<Rightarrow> Inl e
           | Inr ed \<Rightarrow>
               Inr \<lparr>pu_id = None, pu_username = username', start_date = sd, end_date = ed,
                    pu_profile_id = None\<rparr>))"

subsection \<open>\<open>ProfileNote\<close>\<close>

record profile_note =
  note_id :: "int option"
  category :: "string option"
  note_body :: "string option"
  note_profile_id :: "int option"
  created_at :: "datetime option"

text \<open>The dictionary of \<open>ProfileNote.as_dict\<close>, one field for each key.\<close>

record note_dict =
  nd_id :: "int option"
  nd_category :: "string option"
  nd_body :: "string option"
  nd_profile_id :: "int option"
  nd_created_at :: string

definition note_as_dict :: "profile_note \<Rightarrow> error + note_dict" where
  "note_as_dict self =
     (case created_at self of
        None \<Rightarrow> Inl (AttributeError ''isoformat'')
      | Some t \<Rightarrow>
          Inr \<lparr>nd_id = note_id self, nd_category = category self, nd_body = note_body self,
               nd_profile_id = note_profile_id self, nd_created_at = isoformat t\<rparr>)"

subsection \<open>\<open>Profile\<close>\<close>

definition SOCIAL_SITES :: "(string \<times> string) list" where
  "SOCIAL_SITES = [(''twitter'', ''Twitter''), (''instagram'', ''Instagram'')]"

typedecl pyfloat

text \<open>
  The columns of a profile and the relationships that \<open>__init__\<close> and \<open>as_dict\<close>
  touch (posts, avatars, friends and followers are read by neither). \<open>Label\<close> belongs
  to \<open>model/label.py\<close>, which is not among these sources: a label is a value of the
  type parameter \<open>'l\<close>.
\<close>

record 'l profile =
  profile_id :: "int option"
  site :: string
  upstream_id :: string
  username :: "string option"
  is_stub :: bool
  name :: "string option"
  description :: "string option"
  homepage :: "string option"
  join_date :: "datetime option"
  last_update :: "datetime option"
  follower_count :: "int option"
  friend_count :: "int option"
  post_count :: "int option"
  lang :: "string option"
  location :: "string option"
  is_private :: "bool option"
  time_zone :: "string option"
  usernames :: "profile_username list"
  profile_notes :: "profile_note list"
  is_interesting :: "bool option"
  labels :: "'l list"
  score :: "pyfloat option"
  current_avatar_id :: "int option"

datatype username_arg = Name string | Existing profile_username

text \<open>
  \<open>Profile.__init__\<close>. \<open>now\<close> is what \<open>datetime.now()\<close> returns. The object starts with
  every column \<open>None\<close> and every relationship empty.
\<close>

definition Profile_init ::
  "(string \<Rightarrow> error + datetime) \<Rightarrow> datetime \<Rightarrow> string \<Rightarrow> string \<Rightarrow> username_arg \<Rightarrow> bool
     \<Rightarrow> error + 'l profile" where
  "Profile_init parse now site' upstream_id' username' is_stub' =
     (let self = \<lparr>profile_id = None, site = site', upstream_id = upstream_id',
                  username = None, is_stub = is_stub', name = None, description = None,
                  homepage = None, join_date = None, last_update = None,
                  follower_count = None, friend_count = None, post_count = None,
                  lang = None, location = None, is_private = None, time_zone = None,
                  usernames = [], profile_notes = [], is_interesting = None, labels = [],
                  score = None, current_avatar_id = None\<rparr>
      in case username' of
           Existing pu \<Rightarrow>
             Inr (self\<lparr>username := pu_username pu, usernames := usernames self @ [pu]\<rparr>)
         | Name s \<Rightarrow>
             (case ProfileUsername_init parse (Some s) (Date now) (Date now) of
                Inl e \<Rightarrow> Inl e
              | Inr pu \<Rightarrow>
                  Inr (self\<lparr>username := Some s, usernames := usernames self @ [pu]\<rparr>)))"

text \<open>\<open>Profile.site_name\<close>: \<open>SOCIAL_SITES[self.site]\<close>.\<close>

definition site_name :: "'l profile \<Rightarrow> error + string" where
  "site_name self =
     (case map_of SOCIAL_SITES (site self) of
        None \<Rightarrow> Inl (KeyError (site self))
      | Some n \<Rightarrow> Inr n)"

text \<open>The dictionary of \<open>Profile.as_dict\<close>, one field for each key.\<close>

record 'd profile_dict =
  d_description :: "string option"
  d_follower_count :: "int option"
  d_friend_count :: "int option"
  d_is_interesting :: "bool option"
  d_id :: "int option"
  d_is_stub :: bool
  d_join_date :: "string option"
  d_labels :: "'d list"
  d_last_update :: string
  d_location :: "string option"
  d_name :: "string option"
  d_notes :: "note_dict list"
  d_post_count :: "int option"
  d_private :: "bool option"
  d_score :: "pyfloat option"
  d_site :: string
  d_site_name :: string
  d_upstream_id :: string
  d_username :: "string option"
  d_time_zone :: "string option"

text \<open>
  \<open>Profile.as_dict\<close>. The two parameters stand for the missing \<open>model/label.py\<close>:
  \<open>label_as_dict\<close> is \<open>Label.as_dict\<close>, returning a dictionary of type \<open>'d\<close>, and
  \<open>name_key\<close> reads the key \<open>'name'\<close> of such a dictionary, a \<open>str\<close>. The steps
  that can raise come in the order of the source: the notes' \<open>isoformat\<close>, then
  \<open>last_update.replace\<close>, then \<open>site_name\<close>.
\<close>

definition as_dict ::
  "('l \<Rightarrow> 'd) \<Rightarrow> ('d \<Rightarrow> string) \<Rightarrow> 'l profile \<Rightarrow> error + 'd profile_dict" where
  "as_dict label_as_dict name_key self =
     (let labels' = map label_as_dict (labels self) in
      case collect (map note_as_dict (profile_notes self)) of
        Inl e \<Rightarrow> Inl e
      | Inr notes' \<Rightarrow>
          (let sorted_labels = py_sorted name_key False labels';
               sorted_notes = py_sorted nd_created_at True notes'
           in case last_update self of
                None \<Rightarrow> Inl (AttributeError ''replace'')
              | Some t \<Rightarrow>
                  (case site_name self of
                     Inl e \<Rightarrow> Inl e
                   | Inr sn \<Rightarrow>
                       Inr \<lparr>d_description = description self,
                            d_follower_count = follower_count self,
                            d_friend_count = friend_count self,
                            d_is_interesting = is_interesting self,
                            d_id = profile_id self,
                            d_is_stub = is_stub self,
                            d_join_date = map_option isoformat (join_date self),
                            d_labels = sorted_labels,
                            d_last_update = isoformat (t\<lparr>microsecond := 0\<rparr>),
                            d_location = location self,
                            d_name = name self,
                            d_notes = sorted_notes,
                            d_post_count = post_count self,
                            d_private = is_private self,
                            d_score = score self,
                            d_site = site self,
                            d_site_name = sn,
                            d_upstream_id = upstream_id self,
                            d_username = username self,
                            d_time_zone = time_zone self\<rparr>)))"

section \<open>Vocabulary of the properties\<close>

text \<open>
  The frame of the wire format for sequence id \<open>s\<close>, channel \<open>c\<close> and payload \<open>p\<close>:
  \<open>id: s\nevent: c\ndata: p\n\n\<close>.
\<close>

definition frame :: "int \<Rightarrow> string \<Rightarrow> string \<Rightarrow> string" where
  "frame s c p =
     ''id: '' @ str_int s @ [nl] @ ''event: '' @ c @ [nl] @ ''data: '' @ p @ [nl, nl]"

text \<open>The frames of the messages \<open>msgs\<close>, numbered 1, 2, ... in their order.\<close>

definition numbered :: "message list \<Rightarrow> string list" where
  "numbered msgs =
     map (\<lambda>(i, m). frame i (channel m) (data m)) (zip [1..int (length msgs)] msgs)"

text \<open>A message is text: its channel and its data are UTF-8.\<close>

definition decodable :: "message \<Rightarrow> bool" where
  "decodable m = (utf8_valid (channel m) \<and> utf8_valid (data m))"

text \<open>What the broker delivers in the course of a sequence of actions.\<close>

fun arrivals :: "action list \<Rightarrow> listen_item list" where
  "arrivals [] = []"
| "arrivals (Arrive x # acts) = x # arrivals acts"
| "arrivals (_ # acts) = arrivals acts"

text \<open>The published messages among the items \<open>xs\<close>, in their order.\<close>

fun published :: "listen_item list \<Rightarrow> message list" where
  "published [] = []"
| "published (Yield m # xs) = m # published xs"
| "published (_ # xs) = published xs"

text \<open>An item that is no failure: an acknowledgement or a message that is text.\<close>

definition benign :: "listen_item \<Rightarrow> bool" where
  "benign x = (case x of Yield m \<Rightarrow> decodable m | Ack c n \<Rightarrow> True | _ \<Rightarrow> False)"

fun is_ack_arrival :: "action \<Rightarrow> bool" where
  "is_ack_arrival (Arrive x) = is_ack x"
| "is_ack_arrival _ = False"

text \<open>
  What a generator with the queue \<open>q\<close> has still to write: the priming chunk if it
  has not started, then the frames of \<open>q\<close>, numbered from its next \<open>event_id\<close>.
\<close>

fun frames_from :: "int \<Rightarrow> message list \<Rightarrow> string list" where
  "frames_from k [] = []"
| "frames_from k (m # ms) = frame k (channel m) (data m) # frames_from (k + 1) ms"

fun next_id :: "gen_pc \<Rightarrow> int" where
  "next_id (AtFrame n) = n + 1"
| "next_id _ = 1"

definition pend :: "generator \<Rightarrow> message list \<Rightarrow> string list" where
  "pend g q = (if pc g = NotStarted then [[]] else []) @ frames_from (next_id (pc g)) q"

text \<open>
  The same for the messages in the generator's own queue followed by \<open>ms\<close>, and the
  generators that are running on a filtering handle with no failure in the queue.
\<close>

definition left :: "generator \<Rightarrow> message list \<Rightarrow> string list" where
  "left g ms = pend g (published (incoming (pubsub g)) @ ms)"

definition live :: "generator \<Rightarrow> bool" where
  "live g = (pc g \<noteq> Finished \<and> ignore_subscribe_messages (pubsub g)
             \<and> list_all benign (incoming (pubsub g)))"

text \<open>A handle, and a generator, with the acknowledgements taken out of the queue.\<close>

definition strip_acks :: "pubsub \<Rightarrow> pubsub" where
  "strip_acks ps = ps\<lparr>incoming := filter (\<lambda>x. \<not> is_ack x) (incoming ps)\<rparr>"

definition strip :: "generator \<Rightarrow> generator" where
  "strip g = g\<lparr>pubsub := strip_acks (pubsub g)\<rparr>"

text \<open>The profiles on which \<open>as_dict\<close> raises nothing.\<close>

definition as_dict_returns :: "'l profile \<Rightarrow> bool" where
  "as_dict_returns p =
     (last_update p \<noteq> None \<and> list_all (\<lambda>n. created_at n \<noteq> None) (profile_notes p)
      \<and> site p \<in> set (map fst SOCIAL_SITES))"

subsection \<open>Example inputs\<close>

definition req_sse :: request where
  "req_sse = \<lparr>headers = [''Accept'' \<mapsto> ''text/event-stream'']\<rparr>"

definition req_html :: request where
  "req_html = \<lparr>headers = [''Accept'' \<mapsto> ''text/html'']\<rparr>"

definition broker0 :: broker where
  "broker0 = \<lparr>unavailable = None, handles = 0, subscribe_calls = []\<rparr>"

definition profile_42 :: message where
  "profile_42 = \<lparr>channel = ''profile'', data = ''42''\<rparr>"

definition avatar_7 :: message where
  "avatar_7 = \<lparr>channel = ''avatar'', data = ''7''\<rparr>"

definition opened :: generator where
  "opened = stream ((redis_pubsub True)\<lparr>channels := CHANNELS\<rparr>)"

definition t1 :: datetime where
  "t1 = \<lparr>year = 2015, month = 3, day = 9, hour = 7, minute = 5, second = 0,
          microsecond = 0\<rparr>"

definition t2 :: datetime where
  "t2 = \<lparr>year = 2015, month = 11, day = 20, hour = 18, minute = 30, second = 2,
          microsecond = 1500\<rparr>"

definition note_of :: "datetime \<Rightarrow> profile_note" where
  "note_of t = \<lparr>note_id = None, category = None, note_body = None, note_profile_id = None,
               created_at = Some t\<rparr>"

text \<open>A profile whose labels are their own dictionaries' names.\<close>

definition example_profile :: "string profile" where
  "example_profile =
     \<lparr>profile_id = Some 1, site = ''twitter'', upstream_id = ''12'', username = Some ''john'',
      is_stub = False, name = None, description = None, homepage = None, join_date = None,
      last_update = Some t2, follower_count = None, friend_count = None, post_count = None,
      lang = None, location = None, is_private = None, time_zone = None, usernames = [],
      profile_notes = [note_of t1, note_of t2], is_interesting = None,
      labels = [''vip'', ''bot''], score = None, current_avatar_id = None\<rparr>"

section \<open>Properties\<close>

subsection \<open>Encoding\<close>

lemma emit_Inr: "emit s (Inr t) = Inr (s @ t)"
  by (simp add: emit_def)

text \<open>
  C2. Encoding an event is a function of the event alone: for every sequence id \<open>s\<close>,
  channel \<open>c\<close> and payload \<open>p\<close> the frame is exactly
  \<open>'id: ' + str(s) + '\nevent: ' + c + '\ndata: ' + p + '\n\n'\<close>, one frame per event,
  with the channel name and the payload embedded as they are.
\<close>

theorem encode_frame:
  "encode s c p =
     Inr (''id: '' @ str_int s @ [nl] @ ''event: '' @ c @ [nl] @ ''data: '' @ p @ [nl, nl])"
  by (simp add: encode_def frame_template_def emit_Inr)

lemma encode_eq_frame: "encode s c p = Inr (frame s c p)"
  by (simp add: encode_def frame_template_def emit_Inr frame_def)

subsection \<open>Content negotiation\<close>

text \<open>
  C3. A request whose \<open>Accept\<close> header is not the streaming content type is answered
  with \<open>NotAcceptable\<close>, and the broker is left as it was: no subscribe call, no handle.
\<close>

theorem index_not_acceptable:
  assumes "headers req ''Accept'' \<noteq> Some ''text/event-stream''"
  shows "index req b = (Inl (NotAcceptable message_406), b)
     \<and> subscribe_calls (snd (index req b)) = subscribe_calls b
     \<and> handles (snd (index req b)) = handles b"
  using assms by (simp add: index_def)

theorem index_not_acceptable_witness:
  "headers req_html ''Accept'' \<noteq> Some ''text/event-stream''
   \<and> index req_html broker0 = (Inl (NotAcceptable message_406), broker0)
   \<and> subscribe_calls (snd (index req_html broker0)) = []
   \<and> handles (snd (index req_html broker0)) = 0"
proof -
  have h: "headers req_html ''Accept'' \<noteq> Some ''text/event-stream''"
    by (simp add: req_html_def)
  show ?thesis
    using h index_not_acceptable [OF h, of broker0] by (simp add: broker0_def)
qed

text \<open>
  C8. The negotiation is an equality test on the header's text: \<open>index\<close> answers
  \<open>NotAcceptable\<close> exactly when the \<open>Accept\<close> header is not the string
  \<open>text/event-stream\<close>, and it returns a response exactly when the header is that string
  and the broker can be reached. A request without the header, one that lists the
  streaming type among others, and one that accepts everything are all rejected.
\<close>

theorem index_accept_exact:
  "(fst (index req b) = Inl (NotAcceptable message_406))
      = (headers req ''Accept'' \<noteq> Some ''text/event-stream'')
   \<and> (\<not> isl (fst (index req b)))
      = (headers req ''Accept'' = Some ''text/event-stream'' \<and> unavailable b = None)
   \<and> fst (index \<lparr>headers = Map.empty\<rparr> b) = Inl (NotAcceptable message_406)
   \<and> fst (index \<lparr>headers = [''Accept'' \<mapsto> ''text/event-stream, */*'']\<rparr> b)
      = Inl (NotAcceptable message_406)
   \<and> fst (index \<lparr>headers = [''Accept'' \<mapsto> ''*/*'']\<rparr> b) = Inl (NotAcceptable message_406)"
  by (simp add: index_def pubsub_subscribe_def Let_def split: option.splits)

subsection \<open>Subscription\<close>



subsection \<open>Teardown\<close>

lemma loop_body_close_calls:
  "close_calls (pubsub (snd (loop_body n g))) = close_calls (pubsub g)"
  by (simp add: loop_body_def listen_def split: list.splits listen_item.splits sum.splits)

lemma stream_next_close_calls:
  "close_calls (pubsub (snd (stream_next g))) = close_calls (pubsub g)"
  by (simp add: stream_next_def loop_body_close_calls split: gen_pc.splits)

text \<open>
  C4, as the code has it. \<open>_stream\<close> never calls \<open>close()\<close> on its handle: whatever
  happens on the connection (chunks pulled, messages delivered, the broker's
  connection lost, the client gone), the number of \<open>close()\<close> calls on the handle is
  what it was when the stream was opened.
\<close>

theorem run_never_closes:
  "close_calls (pubsub (snd (run acts g))) = close_calls (pubsub g)"
proof (induction acts g rule: run.induct)
  case (2 acts g)
  then show ?case
    using stream_next_close_calls [of g]
    by (auto split: prod.splits resumed.splits)
qed (simp_all add: arrive_def stream_close_def)

text \<open>
  C4 as stated fails: after the client disconnects, and after the broker's connection
  is lost, the generator is finished and \<open>close()\<close> has been called zero times, not
  once.
\<close>

theorem teardown_counterexample:
  "pc (snd (run [Pull, Disconnect] opened)) = Finished
   \<and> close_calls (pubsub (snd (run [Pull, Disconnect] opened))) = 0
   \<and> pc (snd (run [Pull, Arrive (Raise (BrokerError ''connection lost'')), Pull] opened))
       = Finished
   \<and> close_calls
        (pubsub (snd (run [Pull, Arrive (Raise (BrokerError ''connection lost'')), Pull] opened)))
       = 0"
  by (simp add: opened_def stream_def stream_next_def stream_close_def arrive_def
      loop_body_def listen_def redis_pubsub_def)

subsection \<open>Priming\<close>

lemma index_Inr:
  "index req b = (Inr resp, b') \<Longrightarrow>
     pc (body resp) = NotStarted \<and> incoming (pubsub (body resp)) = []"
  by (auto simp: index_def pubsub_subscribe_def redis_pubsub_def stream_def Let_def
      split: if_splits option.splits)

lemma loop_body_shape:
  "loop_body k g = (Yielded f, g') \<Longrightarrow> take 4 f = ''id: ''"
  by (auto simp: loop_body_def listen_def encode_eq_frame frame_def
      split: list.splits listen_item.splits sum.splits)

lemma loop_body_pc: "pc (snd (loop_body k g)) = NotStarted \<Longrightarrow> pc g = NotStarted"
  by (auto simp: loop_body_def listen_def
      split: list.splits listen_item.splits sum.splits)

lemma stream_next_shape:
  "pc g \<noteq> NotStarted \<Longrightarrow> stream_next g = (Yielded f, g') \<Longrightarrow> take 4 f = ''id: ''"
  by (cases "pc g") (auto simp: stream_next_def dest: loop_body_shape)

lemma stream_next_pc:
  "pc g \<noteq> NotStarted \<Longrightarrow> pc (snd (stream_next g)) \<noteq> NotStarted"
  by (cases "pc g") (auto simp: stream_next_def dest: loop_body_pc)

lemma run_started:
  "pc g \<noteq> NotStarted \<Longrightarrow> \<forall>x\<in>set (fst (run acts g)). take 4 x = ''id: ''"
proof (induction acts arbitrary: g)
  case Nil
  then show ?case by simp
next
  case (Cons a acts)
  show ?case
  proof (cases a)
    case Pull
    obtain r g1 where n: "stream_next g = (r, g1)" by (cases "stream_next g")
    then have "pc g1 \<noteq> NotStarted" using stream_next_pc [OF Cons.prems] by simp
    from Cons.IH [OF this] n Pull stream_next_shape [OF Cons.prems]
    show ?thesis by (cases r) (auto split: prod.splits)
  next
    case (Arrive x)
    then show ?thesis using Cons.IH [of "arrive x g"] Cons.prems by (simp add: arrive_def)
  next
    case Disconnect
    then show ?thesis using Cons.IH [of "stream_close g"] by (simp add: stream_close_def)
  qed
qed

lemma run_finished: "pc g = Finished \<Longrightarrow> fst (run acts g) = []"
proof (induction acts arbitrary: g)
  case Nil
  then show ?case by simp
next
  case (Cons a acts)
  then show ?case
    by (cases a) (simp_all add: stream_next_def arrive_def stream_close_def)
qed

lemma run_not_started:
  "pc g = NotStarted \<Longrightarrow>
     (case fst (run acts g) of
        [] \<Rightarrow> True
      | f # fs \<Rightarrow> f = [] \<and> (\<forall>x\<in>set fs. take 4 x = ''id: ''))"
proof (induction acts arbitrary: g)
  case Nil
  then show ?case by simp
next
  case (Cons a acts)
  show ?case
  proof (cases a)
    case Pull
    have "\<forall>x\<in>set (fst (run acts (g\<lparr>pc := AtPrime\<rparr>))). take 4 x = ''id: ''"
      by (rule run_started) simp
    then show ?thesis using Pull Cons.prems
      by (simp add: stream_next_def split: prod.splits)
  next
    case (Arrive x)
    then show ?thesis using Cons.IH [of "arrive x g"] Cons.prems by (simp add: arrive_def)
  next
    case Disconnect
    then show ?thesis using run_finished [of "stream_close g" acts]
      by (simp add: stream_close_def)
  qed
qed

text \<open>
  C5. On every stream that \<open>index\<close> opens, the first pull yields the empty priming
  chunk, before anything is read from the broker; and whatever happens on the
  connection, the chunks written are the empty chunk first and then frames only (each
  begins with \<open>id: \<close>), so that the priming chunk is written once and before any frame.
\<close>

theorem stream_primes_first:
  assumes "index req b = (Inr resp, b')"
  shows "stream_next (body resp) = (Yielded [], (body resp)\<lparr>pc := AtPrime\<rparr>)
     \<and> (case fst (run acts (body resp)) of
          [] \<Rightarrow> True
        | f # fs \<Rightarrow> f = [] \<and> (\<forall>x\<in>set fs. take 4 x = ''id: ''))"
  using index_Inr [OF assms] run_not_started [of "body resp" acts]
  by (simp add: stream_next_def)

lemma index_sse:
  "index req_sse broker0 =
     (Inr \<lparr>body = opened, content_type = ''text/event-stream''\<rparr>,
      broker0\<lparr>subscribe_calls := [CHANNELS], handles := 1\<rparr>)"
  by (simp add: index_def req_sse_def broker0_def pubsub_subscribe_def redis_pubsub_def
      opened_def)

lemma run_opened:
  "fst (run [Arrive (Yield profile_42), Pull, Pull] opened) =
     [[], ''id: 1'' @ [nl] @ ''event: profile'' @ [nl] @ ''data: 42'' @ [nl, nl]]"
  by code_simp

theorem stream_primes_first_witness:
  "index req_sse broker0 =
     (Inr \<lparr>body = opened, content_type = ''text/event-stream''\<rparr>,
      broker0\<lparr>subscribe_calls := [CHANNELS], handles := 1\<rparr>)
   \<and> fst (stream_next opened) = Yielded []
   \<and> fst (run [Arrive (Yield profile_42), Pull, Pull] opened) =
       [[], ''id: 1'' @ [nl] @ ''event: profile'' @ [nl] @ ''data: 42'' @ [nl, nl]]"
  using index_sse run_opened
    stream_primes_first [OF index_sse, of "[Arrive (Yield profile_42), Pull, Pull]"]
  by simp

subsection \<open>Ordering and numbering\<close>

lemma frames_from_zip:
  "frames_from k ms =
     map (\<lambda>(i, m). frame i (channel m) (data m)) (zip [k..k + int (length ms) - 1] ms)"
proof (induction ms arbitrary: k)
  case Nil
  then show ?case by simp
next
  case (Cons m ms)
  have "[k..k + int (length (m # ms)) - 1] = k # [k + 1..(k + 1) + int (length ms) - 1]"
    by (simp add: upto_rec1 [of k])
  then show ?case using Cons.IH [of "k + 1"] by simp
qed

lemma published_append: "published (xs @ ys) = published xs @ published ys"
  by (induction xs rule: published.induct) simp_all

lemma published_dropWhile: "published (dropWhile is_ack q) = published q"
  by (induction q rule: published.induct) simp_all

lemma dropWhile_ack_Cons:
  assumes "dropWhile is_ack q = x # xs" "list_all benign q"
  shows "\<exists>m. x = Yield m \<and> decodable m \<and> published q = m # published xs \<and> list_all benign xs"
proof -
  have "x \<in> set q" "set xs \<subseteq> set q"
    using assms(1) set_dropWhileD [of _ is_ack q] by (auto simp: subset_iff)
  then have b: "benign x" "list_all benign xs" using assms(2) by (auto simp: list_all_iff)
  have "\<not> is_ack x" using assms(1) by (metis hd_dropWhile list.distinct(1) list.sel(1))
  with b(1) obtain m where m: "x = Yield m" "decodable m"
    by (cases x) (simp_all add: benign_def)
  have "published q = published (x # xs)" using published_dropWhile [of q] assms(1) by simp
  then show ?thesis using m b(2) by simp
qed

text \<open>
  A message that is not text ends the stream: \<open>decode\<close> raises, nothing is written
  for it, and the generator is finished.
\<close>

lemma loop_body_undecodable:
  "incoming (pubsub g) = Yield m # rest \<Longrightarrow> \<not> decodable m \<Longrightarrow>
     loop_body k g =
       (Raised UnicodeDecodeError, \<lparr>pc = Finished, pubsub = (pubsub g)\<lparr>incoming := rest\<rparr>\<rparr>)"
  by (auto simp: loop_body_def listen_def decodable_def decode_utf8_def)

lemma loop_body_blocked:
  assumes "ignore_subscribe_messages (pubsub g)" "dropWhile is_ack (incoming (pubsub g)) = []"
  shows "loop_body k g = (Blocked, g\<lparr>pubsub := (pubsub g)\<lparr>incoming := []\<rparr>\<rparr>)"
  using assms by (simp add: loop_body_def listen_def del: dropWhile_eq_Nil_conv)

lemma loop_body_message:
  assumes "ignore_subscribe_messages (pubsub g)"
    "dropWhile is_ack (incoming (pubsub g)) = Yield m # rest" "decodable m"
  shows "loop_body k g =
       (Yielded (frame k (channel m) (data m)),
        \<lparr>pc = AtFrame k, pubsub = (pubsub g)\<lparr>incoming := rest\<rparr>\<rparr>)"
  using assms
  by (simp add: loop_body_def listen_def decodable_def decode_utf8_def encode_eq_frame)

text \<open>One pull on a live generator.\<close>

lemma pull_step:
  assumes "live g"
  shows "\<exists>out g'. run [Pull] g = (out, g') \<and> live g' \<and> out @ left g' ms = left g ms
           \<and> (left g [] \<noteq> [] \<longrightarrow> out \<noteq> [])"
proof (cases "pc g = NotStarted")
  case True
  then show ?thesis using assms
    by (simp add: stream_next_def pend_def left_def live_def)
next
  case False
  from assms have fl: "ignore_subscribe_messages (pubsub g)"
    and be: "list_all benign (incoming (pubsub g))" and nf: "pc g \<noteq> Finished"
    by (simp_all add: live_def)
  have nx: "stream_next g = loop_body (next_id (pc g)) g"
    using False nf by (cases "pc g") (simp_all add: stream_next_def)
  show ?thesis
  proof (cases "dropWhile is_ack (incoming (pubsub g))")
    case Nil
    then have "published (incoming (pubsub g)) = []"
      by (metis published.simps(1) published_dropWhile)
    then show ?thesis
      using nx loop_body_blocked [OF fl Nil] False nf fl
      by (simp add: left_def pend_def live_def)
  next
    case (Cons x xs)
    from dropWhile_ack_Cons [OF Cons be] obtain m where
      m: "x = Yield m" "decodable m" "published (incoming (pubsub g)) = m # published xs"
         "list_all benign xs" by blast
    have "stream_next g = (Yielded (frame (next_id (pc g)) (channel m) (data m)),
            \<lparr>pc = AtFrame (next_id (pc g)), pubsub = (pubsub g)\<lparr>incoming := xs\<rparr>\<rparr>)"
      using nx loop_body_message [OF fl _ m(2), of xs] Cons m(1) by simp
    then show ?thesis using m False fl
      by (simp add: left_def pend_def live_def)
  qed
qed

lemma run_append:
  "run (xs @ ys) g =
     (case run xs g of (o1, g1) \<Rightarrow> (case run ys g1 of (o2, g2) \<Rightarrow> (o1 @ o2, g2)))"
  by (induction xs g rule: run.induct) (auto split: prod.splits resumed.splits)

text \<open>
  The invariant of a connection without disconnect and without failure: what has been
  written, followed by what the generator has still to write, is the whole numbered
  sequence.
\<close>

lemma run_invariant:
  assumes "live g" "Disconnect \<notin> set acts" "list_all benign (arrivals acts)"
  shows "\<exists>out g'. run acts g = (out, g') \<and> live g'
           \<and> out @ left g' [] = left g (published (arrivals acts))"
  using assms
proof (induction acts arbitrary: g)
  case Nil
  then show ?case by simp
next
  case (Cons a acts)
  show ?case
  proof (cases a)
    case Pull
    obtain out g1 where s: "run [Pull] g = (out, g1)" "live g1"
      "out @ left g1 (published (arrivals acts)) = left g (published (arrivals acts))"
      using pull_step [OF Cons.prems(1), of "published (arrivals acts)"] by blast
    from Cons.prems Pull have "Disconnect \<notin> set acts" "list_all benign (arrivals acts)"
      by simp_all
    from Cons.IH [OF s(2) this]
    obtain out2 g2 where r: "run acts g1 = (out2, g2)" "live g2"
      "out2 @ left g2 [] = left g1 (published (arrivals acts))" by blast
    have "run (a # acts) g = (out @ out2, g2)"
      using run_append [of "[Pull]" acts g] s(1) r(1) Pull by simp
    moreover have "(out @ out2) @ left g2 [] = left g (published (arrivals (a # acts)))"
      using r(3) s(3) Pull by simp
    ultimately show ?thesis using r(2) by blast
  next
    case (Arrive x)
    let ?g1 = "arrive x g"
    from Cons.prems Arrive have bx: "benign x" and rest: "Disconnect \<notin> set acts"
      "list_all benign (arrivals acts)" by simp_all
    have 1: "live ?g1" using Cons.prems(1) bx by (simp add: live_def arrive_def)
    from Cons.IH [OF 1 rest]
    obtain out g' where r: "run acts ?g1 = (out, g')" "live g'"
      "out @ left g' [] = left ?g1 (published (arrivals acts))" by blast
    have "left ?g1 (published (arrivals acts)) = left g (published (arrivals (a # acts)))"
      using Arrive published_append [of "[x]" "arrivals acts"]
      by (simp add: left_def pend_def arrive_def published_append)
    then have "out @ left g' [] = left g (published (arrivals (a # acts)))"
      using r(3) by simp
    moreover have "run (a # acts) g = (out, g')" using r(1) Arrive by simp
    ultimately show ?thesis using r(2) by blast
  next
    case Disconnect
    then show ?thesis using Cons.prems(2) by simp
  qed
qed

text \<open>Enough pulls write everything the generator has still to write.\<close>

lemma drain:
  assumes "live g" "length (left g []) \<le> K"
  shows "fst (run (replicate K Pull) g) = left g []"
  using assms
proof (induction K arbitrary: g)
  case 0
  then show ?case by simp
next
  case (Suc K)
  obtain out g1 where s: "run [Pull] g = (out, g1)" "live g1"
      "out @ left g1 [] = left g []" "left g [] \<noteq> [] \<longrightarrow> out \<noteq> []"
    using pull_step [OF Suc.prems(1), of "[]"] by blast
  have "length (left g1 []) \<le> K"
  proof (cases "left g [] = []")
    case True
    then show ?thesis using s(3) by simp
  next
    case False
    then have "out \<noteq> []" using s(4) by simp
    then have "length out \<ge> 1" by (cases out) simp_all
    moreover have "length out + length (left g1 []) = length (left g [])"
      using s(3) by (metis length_append)
    ultimately show ?thesis using Suc.prems(2) by linarith
  qed
  from Suc.IH [OF s(2) this]
  have "fst (run (replicate K Pull) g1) = left g1 []" .
  moreover have "run (replicate (Suc K) Pull) g =
      (case run (replicate K Pull) g1 of (o2, g2) \<Rightarrow> (out @ o2, g2))"
    using run_append [of "[Pull]" "replicate K Pull" g] s(1) by simp
  ultimately show ?case using s(3) by (auto split: prod.splits)
qed

text \<open>
  C1. Take a freshly opened stream and any interleaving \<open>acts\<close> of pulls by the
  server and deliveries by the broker, without a disconnect, in which the broker
  delivers acknowledgements and text messages, the messages being \<open>msgs\<close>, \<open>N\<close> of
  them, in this order. Then at every moment the chunks written are an initial part
  of the priming chunk followed by the frames of \<open>msgs\<close> numbered 1, 2, ..., \<open>N\<close>
  in the order of arrival; and once the server has pulled often enough, they are all
  of it: no gap, no repeat, no reordering, no merging, nothing dropped.
\<close>

theorem stream_sequence_ids:
  assumes "ignore_subscribe_messages ps" and "incoming ps = []"
    and "Disconnect \<notin> set acts"
    and "list_all benign (arrivals acts)"
    and "published (arrivals acts) = msgs"
  shows "fst (run (acts @ replicate (Suc (length msgs)) Pull) (stream ps)) = [] # numbered msgs
     \<and> take (length (fst (run acts (stream ps)))) ([] # numbered msgs)
         = fst (run acts (stream ps))"
proof -
  let ?g = "stream ps"
  have tot: "left ?g msgs = [] # numbered msgs"
    using frames_from_zip [of 1 msgs] assms(2)
    by (simp add: left_def pend_def stream_def numbered_def)
  have "live ?g" using assms(1,2) by (simp add: live_def stream_def)
  from run_invariant [OF this assms(3,4)]
  obtain out g' where r: "run acts ?g = (out, g')" "live g'"
      "out @ left g' [] = [] # numbered msgs" using tot assms(5) by auto
  have "length (out @ left g' []) = Suc (length msgs)"
    using r(3) by (simp add: numbered_def)
  then have "length (left g' []) \<le> Suc (length msgs)" by simp
  from drain [OF r(2) this]
  have d: "fst (run (replicate (Suc (length msgs)) Pull) g') = left g' []" .
  have "fst (run (acts @ replicate (Suc (length msgs)) Pull) ?g) = [] # numbered msgs"
    using run_append [of acts "replicate (Suc (length msgs)) Pull" ?g] r(1) r(3) d
    by (auto split: prod.splits)
  moreover have "take (length (fst (run acts ?g))) ([] # numbered msgs) = fst (run acts ?g)"
    using r(1) r(3) by (metis append_eq_conv_conj fst_conv)
  ultimately show ?thesis by simp
qed


lemma benign_examples:
  "list_all benign [Ack ''avatar'' 1, Ack ''profile'' 2, Yield profile_42, Yield avatar_7]"
  by code_simp

lemma numbered_examples:
  "numbered [profile_42, avatar_7] =
     [''id: 1'' @ [nl] @ ''event: profile'' @ [nl] @ ''data: 42'' @ [nl, nl],
      ''id: 2'' @ [nl] @ ''event: avatar'' @ [nl] @ ''data: 7'' @ [nl, nl]]"
  by code_simp

lemma run_examples:
  "fst (run [Pull, Arrive (Ack ''avatar'' 1), Arrive (Ack ''profile'' 2),
             Arrive (Yield profile_42), Pull, Arrive (Yield avatar_7)] opened) =
     [[], ''id: 1'' @ [nl] @ ''event: profile'' @ [nl] @ ''data: 42'' @ [nl, nl]]"
  by code_simp

theorem stream_sequence_ids_witness:
  "fst (run ([Pull, Arrive (Ack ''avatar'' 1), Arrive (Ack ''profile'' 2),
              Arrive (Yield profile_42), Pull, Arrive (Yield avatar_7)]
             @ replicate (Suc (length [profile_42, avatar_7])) Pull) opened) =
     [[], ''id: 1'' @ [nl] @ ''event: profile'' @ [nl] @ ''data: 42'' @ [nl, nl],
          ''id: 2'' @ [nl] @ ''event: avatar'' @ [nl] @ ''data: 7'' @ [nl, nl]]
   \<and> take 2 [[], ''id: 1'' @ [nl] @ ''event: profile'' @ [nl] @ ''data: 42'' @ [nl, nl],
                 ''id: 2'' @ [nl] @ ''event: avatar'' @ [nl] @ ''data: 7'' @ [nl, nl]]
       = fst (run [Pull, Arrive (Ack ''avatar'' 1), Arrive (Ack ''profile'' 2),
                   Arrive (Yield profile_42), Pull, Arrive (Yield avatar_7)] opened)"
proof -
  let ?acts = "[Pull, Arrive (Ack ''avatar'' 1), Arrive (Ack ''profile'' 2),
                Arrive (Yield profile_42), Pull, Arrive (Yield avatar_7)]"
  let ?ps = "(redis_pubsub True)\<lparr>channels := CHANNELS\<rparr>"
  have 0: "ignore_subscribe_messages ?ps" by (simp add: redis_pubsub_def)
  have 1: "incoming ?ps = []" by (simp add: redis_pubsub_def)
  have 2: "Disconnect \<notin> set ?acts" by simp
  have 3: "list_all benign (arrivals ?acts)" using benign_examples by simp
  have 4: "published (arrivals ?acts) = [profile_42, avatar_7]" by simp
  show ?thesis
    using stream_sequence_ids [OF 0 1 2 3 4] run_examples
    unfolding numbered_examples opened_def by simp
qed

subsection \<open>Acknowledgements\<close>

lemma dropWhile_filter_acks:
  "dropWhile is_ack (filter (\<lambda>x. \<not> is_ack x) q) = filter (\<lambda>x. \<not> is_ack x) (dropWhile is_ack q)"
  "filter (\<lambda>x. \<not> is_ack x) (dropWhile is_ack q) = filter (\<lambda>x. \<not> is_ack x) q"
  by (induction q) simp_all

lemma filter_dropWhile_Cons:
  "dropWhile is_ack q = x # xs \<Longrightarrow>
     filter (\<lambda>x. \<not> is_ack x) q = x # filter (\<lambda>x. \<not> is_ack x) xs"
proof -
  assume a: "dropWhile is_ack q = x # xs"
  then have "\<not> is_ack x" by (metis hd_dropWhile list.distinct(1) list.sel(1))
  then show ?thesis using dropWhile_filter_acks(2) [of q] a by simp
qed

lemma listen_strip:
  assumes "ignore_subscribe_messages ps"
  shows "listen (strip_acks ps) = (fst (listen ps), strip_acks (snd (listen ps)))"
proof (cases "dropWhile is_ack (incoming ps)")
  case Nil
  then have "filter (\<lambda>x. \<not> is_ack x) (incoming ps) = []"
    using dropWhile_filter_acks(2) [of "incoming ps"] by (simp del: dropWhile_eq_Nil_conv)
  then show ?thesis using assms Nil
    by (simp add: listen_def strip_acks_def del: dropWhile_eq_Nil_conv)
next
  case (Cons x xs)
  from filter_dropWhile_Cons [OF Cons]
  have f: "filter (\<lambda>x. \<not> is_ack x) (incoming ps) = x # filter (\<lambda>x. \<not> is_ack x) xs" .
  have "\<not> is_ack x" using Cons by (metis hd_dropWhile list.distinct(1) list.sel(1))
  then show ?thesis using assms Cons f
    by (simp add: listen_def strip_acks_def)
qed

lemma listen_flag:
  "ignore_subscribe_messages (snd (listen ps)) = ignore_subscribe_messages ps"
  by (simp add: listen_def split: list.splits)

lemma loop_body_strip:
  assumes "ignore_subscribe_messages (pubsub g)"
  shows "loop_body k (strip g) = (fst (loop_body k g), strip (snd (loop_body k g)))"
proof -
  obtain r ps where l: "listen (pubsub g) = (r, ps)" by (cases "listen (pubsub g)")
  then have "listen (pubsub (strip g)) = (r, strip_acks ps)"
    using listen_strip [OF assms] by (simp add: strip_def)
  with l show ?thesis
    by (simp add: loop_body_def strip_def
        split: option.splits listen_item.splits sum.splits)
qed

lemma loop_body_flag:
  "ignore_subscribe_messages (pubsub (snd (loop_body k g)))
     = ignore_subscribe_messages (pubsub g)"
proof -
  obtain r ps where l: "listen (pubsub g) = (r, ps)" by (cases "listen (pubsub g)")
  then have "ignore_subscribe_messages ps = ignore_subscribe_messages (pubsub g)"
    using listen_flag [of "pubsub g"] by simp
  with l show ?thesis
    by (simp add: loop_body_def split: option.splits listen_item.splits sum.splits)
qed

lemma stream_next_strip:
  assumes "ignore_subscribe_messages (pubsub g)"
  shows "stream_next (strip g) = (fst (stream_next g), strip (snd (stream_next g)))"
proof (cases "pc g")
  case NotStarted
  then show ?thesis by (simp add: stream_next_def strip_def)
next
  case AtPrime
  then show ?thesis using loop_body_strip [OF assms, of 1]
    by (simp add: stream_next_def) (simp add: strip_def)
next
  case (AtFrame n)
  then show ?thesis using loop_body_strip [OF assms, of "n + 1"]
    by (simp add: stream_next_def) (simp add: strip_def)
next
  case Finished
  then show ?thesis by (simp add: stream_next_def strip_def)
qed

lemma stream_next_flag:
  "ignore_subscribe_messages (pubsub (snd (stream_next g)))
     = ignore_subscribe_messages (pubsub g)"
  by (cases "pc g") (simp_all add: stream_next_def loop_body_flag)

lemma run_strip:
  assumes "ignore_subscribe_messages (pubsub g)"
  shows "run (filter (\<lambda>a. \<not> is_ack_arrival a) acts) (strip g)
           = (fst (run acts g), strip (snd (run acts g)))"
  using assms
proof (induction acts arbitrary: g)
  case Nil
  then show ?case by simp
next
  case (Cons a acts)
  show ?case
  proof (cases a)
    case Pull
    obtain r g1 where n: "stream_next g = (r, g1)" by (cases "stream_next g")
    then have n': "stream_next (strip g) = (r, strip g1)"
      using stream_next_strip [OF Cons.prems] by simp
    have "ignore_subscribe_messages (pubsub g1)"
      using stream_next_flag [of g] n Cons.prems by simp
    from Cons.IH [OF this] n n' Pull show ?thesis
      by (cases r) (simp_all split: prod.splits)
  next
    case (Arrive x)
    have fl: "ignore_subscribe_messages (pubsub (arrive x g))"
      using Cons.prems by (simp add: arrive_def)
    show ?thesis
    proof (cases "is_ack x")
      case True
      then have "strip (arrive x g) = strip g"
        by (simp add: strip_def strip_acks_def arrive_def)
      then show ?thesis using Cons.IH [OF fl] Arrive True by simp
    next
      case False
      then have "strip (arrive x g) = arrive x (strip g)"
        by (simp add: strip_def strip_acks_def arrive_def)
      then show ?thesis using Cons.IH [OF fl] Arrive False by simp
    qed
  next
    case Disconnect
    have fl: "ignore_subscribe_messages (pubsub (stream_close g))"
      using Cons.prems by (simp add: stream_close_def)
    have "strip (stream_close g) = stream_close (strip g)"
      by (simp add: strip_def stream_close_def)
    then show ?thesis using Cons.IH [OF fl] Disconnect by simp
  qed
qed

lemma run_flag:
  "ignore_subscribe_messages (pubsub (snd (run acts g)))
     = ignore_subscribe_messages (pubsub g)"
proof (induction acts g rule: run.induct)
  case (2 acts g)
  then show ?case
    using stream_next_flag [of g]
    by (auto split: prod.splits resumed.splits)
qed (simp_all add: arrive_def stream_close_def)

lemma listen_no_ack:
  "ignore_subscribe_messages ps \<Longrightarrow> fst (listen ps) \<noteq> Some (Ack c n)"
proof (cases "dropWhile is_ack (incoming ps)")
  case Nil
  assume "ignore_subscribe_messages ps"
  then show ?thesis using Nil by (simp add: listen_def del: dropWhile_eq_Nil_conv)
next
  case (Cons x xs)
  assume f: "ignore_subscribe_messages ps"
  have "\<not> is_ack x" using Cons by (metis hd_dropWhile list.distinct(1) list.sel(1))
  then show ?thesis using f Cons by (auto simp: listen_def)
qed

lemma index_Inr_flag:
  "index req b = (Inr resp, b') \<Longrightarrow>
     ignore_subscribe_messages (pubsub (body resp)) \<and> strip (body resp) = body resp"
  by (auto simp: index_def pubsub_subscribe_def redis_pubsub_def stream_def Let_def
      strip_def strip_acks_def split: if_splits option.splits)

text \<open>
  Without the flag an acknowledgement reaches the loop and ends the stream: its data
  has no \<open>decode\<close>.
\<close>

lemma unfiltered_ack:
  "run [Pull, Arrive (Ack ''avatar'' 1), Pull] (stream (redis_pubsub False)) =
     ([[]], \<lparr>pc = Finished, pubsub = redis_pubsub False\<rparr>)"
  by code_simp

text \<open>
  C7. On a stream that \<open>index\<close> opens, \<open>listen()\<close> never hands an acknowledgement to
  the loop, whatever has happened on the connection; and the acknowledgements that
  the broker delivers leave no trace in what is written: the chunks are those of the
  same connection with the acknowledgements taken out, so no frame is made of one and
  none takes a sequence id.
\<close>

theorem acks_suppressed:
  assumes "index req b = (Inr resp, b')"
  shows "fst (listen (pubsub (snd (run acts (body resp))))) \<noteq> Some (Ack c n)
     \<and> fst (run acts (body resp))
         = fst (run (filter (\<lambda>a. \<not> is_ack_arrival a) acts) (body resp))"
  using index_Inr_flag [OF assms] run_strip [of "body resp" acts]
    run_flag [of acts "body resp"] listen_no_ack [of "pubsub (snd (run acts (body resp)))" c n]
  by simp

lemma run_acks_example:
  "fst (run [Pull, Arrive (Ack ''avatar'' 1), Arrive (Yield profile_42), Pull] opened) =
     [[], ''id: 1'' @ [nl] @ ''event: profile'' @ [nl] @ ''data: 42'' @ [nl, nl]]
   \<and> fst (listen (pubsub (snd (run [Pull, Arrive (Ack ''avatar'' 1)] opened)))) = None"
  by code_simp

theorem acks_suppressed_witness:
  "index req_sse broker0 =
     (Inr \<lparr>body = opened, content_type = ''text/event-stream''\<rparr>,
      broker0\<lparr>subscribe_calls := [CHANNELS], handles := 1\<rparr>)
   \<and> fst (run [Pull, Arrive (Ack ''avatar'' 1), Arrive (Yield profile_42), Pull] opened)
       = fst (run [Pull, Arrive (Yield profile_42), Pull] opened)
   \<and> fst (run [Pull, Arrive (Yield profile_42), Pull] opened)
       = [[], ''id: 1'' @ [nl] @ ''event: profile'' @ [nl] @ ''data: 42'' @ [nl, nl]]"
  using index_sse run_acks_example
    acks_suppressed [OF index_sse,
      of "[Pull, Arrive (Ack ''avatar'' 1), Arrive (Yield profile_42), Pull]"]
  by simp

subsection \<open>Profiles\<close>

text \<open>
  C9. A constructed profile has a username and a non-empty list of usernames. Given a
  plain string, \<open>username\<close> is that string and the list holds exactly one new
  \<open>ProfileUsername\<close> with that name, whose \<open>start_date\<close> and \<open>end_date\<close> are both the
  one reading of the clock taken by the constructor. Given a \<open>ProfileUsername\<close>,
  \<open>username\<close> is its \<open>username\<close> attribute and the list holds exactly that object.
\<close>

theorem profile_init_usernames:
  "(\<exists>p pu. (Profile_init parse now s u (Name n) stub :: error + 'l profile) = Inr p
       \<and> username p = Some n \<and> usernames p = [pu] \<and> usernames p \<noteq> []
       \<and> pu_username pu = Some n \<and> start_date pu = Some now \<and> end_date pu = Some now)
   \<and> (\<exists>p. (Profile_init parse now s u (Existing e) stub :: error + 'l profile) = Inr p
       \<and> username p = pu_username e \<and> usernames p = [e] \<and> usernames p \<noteq> [])"
  by (simp add: Profile_init_def ProfileUsername_init_def date_value_def)

lemma collect_Inr: "collect xs = Inr vs \<Longrightarrow> map Inr vs = xs"
proof (induction xs arbitrary: vs)
  case Nil
  then show ?case by simp
next
  case (Cons x xs)
  then show ?case by (auto split: sum.splits)
qed

lemma collect_total: "\<forall>x\<in>set xs. \<exists>v. x = Inr v \<Longrightarrow> \<exists>vs. collect xs = Inr vs"
proof (induction xs)
  case Nil
  then show ?case by simp
next
  case (Cons x xs)
  then show ?case by (auto split: sum.splits)
qed

lemma py_sorted_up: "sorted (map k (py_sorted k False xs))"
  by (simp add: py_sorted_def)

lemma py_sorted_down: "sorted (rev (map k (py_sorted k True xs)))"
  by (simp add: py_sorted_def rev_map)

lemma mset_py_sorted: "mset (py_sorted k r xs) = mset xs"
  by (simp add: py_sorted_def)

text \<open>
  C10. Whenever \<open>as_dict\<close> returns a dictionary, its labels are the dictionaries of the
  profile's labels rearranged into ascending order of their \<open>'name'\<close> key, and its
  notes are the dictionaries of the profile's notes rearranged into descending order
  of their \<open>'created_at'\<close> key, whatever the order in which the relationships hold
  them. It returns a dictionary exactly on the profiles that have a \<open>last_update\<close>, a
  \<open>created_at\<close> on every note and a site of \<open>SOCIAL_SITES\<close>.
\<close>

theorem as_dict_sorted:
  fixes p :: "'l profile" and label_as_dict :: "'l \<Rightarrow> 'd"
  shows "(as_dict label_as_dict name_key p = Inr d \<longrightarrow>
       sorted (map name_key (d_labels d))
       \<and> mset (d_labels d) = mset (map label_as_dict (labels p))
       \<and> sorted (rev (map nd_created_at (d_notes d)))
       \<and> mset (map Inr (d_notes d)) = mset (map note_as_dict (profile_notes p)))
     \<and> ((\<exists>d'. as_dict label_as_dict name_key p = Inr d') = as_dict_returns p)"
proof -
  have 1: "as_dict label_as_dict name_key p = Inr d \<longrightarrow>
       sorted (map name_key (d_labels d))
       \<and> mset (d_labels d) = mset (map label_as_dict (labels p))
       \<and> sorted (rev (map nd_created_at (d_notes d)))
       \<and> mset (map Inr (d_notes d)) = mset (map note_as_dict (profile_notes p))"
  proof
    assume a: "as_dict label_as_dict name_key p = Inr d"
    then obtain ns where c: "collect (map note_as_dict (profile_notes p)) = Inr ns"
      by (auto simp: as_dict_def Let_def split: sum.splits)
    from a c have l: "d_labels d = py_sorted name_key False (map label_as_dict (labels p))"
      and n: "d_notes d = py_sorted nd_created_at True ns"
      by (auto simp: as_dict_def Let_def split: sum.splits option.splits)
    have "mset (map Inr (py_sorted nd_created_at True ns))
        = mset (map Inr ns :: (error + note_dict) list)"
      by (simp add: mset_py_sorted)
    then show "sorted (map name_key (d_labels d))
       \<and> mset (d_labels d) = mset (map label_as_dict (labels p))
       \<and> sorted (rev (map nd_created_at (d_notes d)))
       \<and> mset (map Inr (d_notes d)) = mset (map note_as_dict (profile_notes p))"
      using collect_Inr [OF c] l n
      by (simp add: py_sorted_up py_sorted_down mset_py_sorted)
  qed
  have 2: "(\<exists>d'. as_dict label_as_dict name_key p = Inr d') = as_dict_returns p"
  proof
    assume "\<exists>d'. as_dict label_as_dict name_key p = Inr d'"
    then obtain d' where a: "as_dict label_as_dict name_key p = Inr d'" ..
    then obtain ns where c: "collect (map note_as_dict (profile_notes p)) = Inr ns"
      by (auto simp: as_dict_def Let_def split: sum.splits)
    have "\<forall>n\<in>set (profile_notes p). created_at n \<noteq> None"
    proof
      fix n assume "n \<in> set (profile_notes p)"
      then have "note_as_dict n \<in> set (map Inr ns)" using collect_Inr [OF c] by simp
      then show "created_at n \<noteq> None" by (auto simp: note_as_dict_def split: option.splits)
    qed
    moreover from a c have "last_update p \<noteq> None"
      by (auto simp: as_dict_def Let_def split: sum.splits option.splits)
    moreover from a c have "map_of SOCIAL_SITES (site p) \<noteq> None"
      by (auto simp: as_dict_def Let_def site_name_def split: sum.splits option.splits)
    then have "site p \<in> set (map fst SOCIAL_SITES)"
      by (simp add: map_of_eq_None_iff)
    ultimately show "as_dict_returns p" by (simp add: as_dict_returns_def list_all_iff)
  next
    assume r: "as_dict_returns p"
    then have "\<forall>x\<in>set (map note_as_dict (profile_notes p)). \<exists>v. x = Inr v"
      by (auto simp: as_dict_returns_def list_all_iff note_as_dict_def split: option.splits)
    from collect_total [OF this] obtain ns where
      c: "collect (map note_as_dict (profile_notes p)) = Inr ns" ..
    from r obtain sn where "map_of SOCIAL_SITES (site p) = Some sn"
      by (auto simp: as_dict_returns_def SOCIAL_SITES_def)
    then show "\<exists>d'. as_dict label_as_dict name_key p = Inr d'"
      using r c by (auto simp: as_dict_returns_def as_dict_def Let_def site_name_def)
  qed
  from 1 2 show ?thesis by blast
qed

lemma as_dict_example:
  "case as_dict id id example_profile of
     Inl e \<Rightarrow> False
   | Inr d \<Rightarrow>
       d_labels d = [''bot'', ''vip'']
       \<and> map nd_created_at (d_notes d) = [''2015-11-20T18:30:02.001500'', ''2015-03-09T07:05:00'']"
  by code_simp

theorem as_dict_sorted_witness:
  "as_dict_returns example_profile
   \<and> (case as_dict id id example_profile of
        Inl e \<Rightarrow> False
      | Inr d \<Rightarrow>
          d_labels d = [''bot'', ''vip'']
          \<and> map nd_created_at (d_notes d)
              = [''2015-11-20T18:30:02.001500'', ''2015-03-09T07:05:00'']
          \<and> sorted (map id (d_labels d))
          \<and> sorted (rev (map nd_created_at (d_notes d)))
          \<and> mset (d_labels d) = mset (map id (labels example_profile)))"
proof (cases "as_dict id id example_profile")
  case (Inl e)
  then show ?thesis using as_dict_example by simp
next
  case (Inr d)
  then show ?thesis
    using as_dict_example as_dict_sorted [of id id example_profile d] by auto
qed

end
